theory Spec2Isabelle
  imports Complex_Main
begin

section \<open>Data model\<close>

text \<open>
  The adaptive time-window search of \<^verbatim>\<open>src/hooks/useYouTubeSearch.ts\<close> and its
  upstream client \<^verbatim>\<open>src/lib/youtube.ts\<close>.

  A JavaScript \<^verbatim>\<open>number\<close> that holds a duration, a factor or a threshold is an exact
  rational here: rounding, overflow and NaN of IEEE doubles are not modelled. An instant
  (a \<^verbatim>\<open>Date\<close>) is a rational number of minutes on the time line. Counters, step
  numbers and list lengths are natural numbers.
\<close>

type_synonym number = rat
type_synonym instant = rat

record TimeWindow =
  startDate :: instant
  endDate :: instant
  durationMinutes :: number

text \<open>
  \<^verbatim>\<open>Video\<close> of \<^verbatim>\<open>@/types\<close>, as \<^verbatim>\<open>getVideoDetails\<close> builds it. The field
  \<^verbatim>\<open>id\<close> is \<open>video_id\<close> here. \<open>viewCount\<close> is the integer that
  \<^verbatim>\<open>parseInt(item.statistics.viewCount, 10)\<close> yields.
\<close>

record Video =
  video_id :: string
  title :: string
  description :: string
  thumbnailUrl :: string
  publishedAt :: string
  viewCount :: int
  channelTitle :: string

text \<open>
  The constants of \<^verbatim>\<open>@/lib/constants\<close>. That module is not among the sources, so
  its values are parameters of every function that reads them.
\<close>

record constants =
  BUSY_PERIOD_THRESHOLD :: number
  MODERATE_PERIOD_THRESHOLD :: number
  CONTRACTION_FACTOR :: number
  MODERATE_EXPANSION_FACTOR :: number
  AGGRESSIVE_EXPANSION_FACTOR :: number
  MIN_WINDOW_DURATION_MINUTES :: number
  RARE_VIEW_THRESHOLD :: number
  INITIAL_WINDOW_DURATION_MINUTES :: number

section \<open>Time-window utilities\<close>

text \<open>
  Modelled from the spec: \<^verbatim>\<open>createTimeWindow\<close> of \<^verbatim>\<open>@/lib/utils\<close> is not among
  the sources. Section 4.1: a window of
  \<^verbatim>\<open>[center - duration/2, center + duration/2]\<close> with the given duration.
\<close>

definition createTimeWindow :: "instant \<Rightarrow> number \<Rightarrow> TimeWindow" where
  "createTimeWindow centerTime duration =
     \<lparr>startDate = centerTime - duration / 2,
      endDate = centerTime + duration / 2,
      durationMinutes = duration\<rparr>"

text \<open>
  Modelled from the spec: \<^verbatim>\<open>getWindowCenter\<close> of \<^verbatim>\<open>@/lib/utils\<close> is not among
  the sources. Section 4.1: the midpoint of the window.
\<close>

definition getWindowCenter :: "TimeWindow \<Rightarrow> instant" where
  "getWindowCenter w = (startDate w + endDate w) / 2"

text \<open>
  Modelled from the spec: \<^verbatim>\<open>createInitialTimeWindow\<close> of \<^verbatim>\<open>@/lib/utils\<close> is not
  among the sources. Section 4.1: a window of the configured initial duration centred on
  the given instant.
\<close>

definition createInitialTimeWindow :: "constants \<Rightarrow> instant \<Rightarrow> TimeWindow" where
  "createInitialTimeWindow cfg centerTime =
     createTimeWindow centerTime (INITIAL_WINDOW_DURATION_MINUTES cfg)"

text \<open>
  \<^verbatim>\<open>expandTimeWindow(window, factor = AGGRESSIVE_EXPANSION_FACTOR)\<close>: the optional
  argument is an \<open>option\<close>, \<open>None\<close> when the caller supplies no factor.
\<close>

definition expandTimeWindow :: "constants \<Rightarrow> TimeWindow \<Rightarrow> number option \<Rightarrow> TimeWindow" where
  "expandTimeWindow cfg window factor_arg =
     (let factor = (case factor_arg of None \<Rightarrow> AGGRESSIVE_EXPANSION_FACTOR cfg | Some f \<Rightarrow> f);
          centerTime = getWindowCenter window;
          newDuration = durationMinutes window * factor
      in createTimeWindow centerTime newDuration)"

section \<open>Upstream client: caches, counters and the two calls\<close>

text \<open>
  The module-level variables of \<^verbatim>\<open>lib/youtube.ts\<close>: the five counters of
  \<^verbatim>\<open>apiStats\<close>, \<^verbatim>\<open>videoCache\<close> and \<^verbatim>\<open>searchCache\<close>. The field
  \<open>requests\<close> is the log of the \<^verbatim>\<open>axios.get\<close> calls issued so far, oldest first;
  the code has no such variable, it records the effect on the outside world.

  A search-cache key is the string
  \<^verbatim>\<open>`${window.startDate.toISOString()}_${window.endDate.toISOString()}`\<close>; it is
  the pair of the two instants here. Both caches are plain objects read through
  \<^verbatim>\<open>cache[key]\<close>; a key is taken not to be the name of a property that every
  JavaScript object inherits.
\<close>

datatype request =
  SearchRequest nat instant instant
| VideosRequest "string list"

type_synonym cache_key = "instant \<times> instant"

record youtube_module =
  searchApiCalls :: nat
  videoDetailApiCalls :: nat
  totalApiCalls :: nat
  cachedSearches :: nat
  cachedVideoDetails :: nat
  videoCache :: "string \<rightharpoonup> Video"
  searchCache :: "cache_key \<rightharpoonup> string list"
  requests :: "request list"

text \<open>
  The upstream API. \<open>search_get after before\<close> is the outcome of the search request
  for the videos published between the two instants: \<open>None\<close> when the awaited
  \<^verbatim>\<open>axios.get\<close> rejects, otherwise the ids \<^verbatim>\<open>item.id.videoId\<close> of
  \<^verbatim>\<open>response.data.items\<close>. \<open>videos_get batchIds\<close> is the outcome of the details
  request for one batch: \<open>None\<close> when it rejects, otherwise the videos built from
  \<^verbatim>\<open>response.data.items || []\<close>. Responses are well-shaped: an item has every field
  that the code reads.
\<close>

record upstream =
  search_get :: "instant \<Rightarrow> instant \<Rightarrow> string list option"
  videos_get :: "string list \<Rightarrow> Video list option"

definition MAX_RESULTS_PER_REQUEST :: nat where
  "MAX_RESULTS_PER_REQUEST = 50"

definition MAX_IDS_PER_REQUEST :: nat where
  "MAX_IDS_PER_REQUEST = 50"

text \<open>\<^verbatim>\<open>apiStats.reset()\<close>.\<close>

definition reset :: "youtube_module \<Rightarrow> youtube_module" where
  "reset st = st\<lparr>searchApiCalls := 0, videoDetailApiCalls := 0, totalApiCalls := 0,
     cachedSearches := 0, cachedVideoDetails := 0\<rparr>"

definition getSearchCacheKey :: "TimeWindow \<Rightarrow> cache_key" where
  "getSearchCacheKey window = (startDate window, endDate window)"

text \<open>
  \<^verbatim>\<open>searchVideosInTimeWindow\<close>. The \<^verbatim>\<open>catch\<close> covers the whole request, so the
  function returns a list in every case; the counters are incremented before the request
  is awaited and stay incremented when it fails.
\<close>

definition searchVideosInTimeWindow ::
  "upstream \<Rightarrow> youtube_module \<Rightarrow> TimeWindow \<Rightarrow> string list \<times> youtube_module" where
  "searchVideosInTimeWindow up st window =
     (let cacheKey = getSearchCacheKey window in
      case searchCache st cacheKey of
        Some cached \<Rightarrow> (cached, st\<lparr>cachedSearches := cachedSearches st + 1\<rparr>)
      | None \<Rightarrow>
          (let st1 = st\<lparr>searchApiCalls := searchApiCalls st + 1,
                        totalApiCalls := totalApiCalls st + 1,
                        requests := requests st @
                          [SearchRequest MAX_RESULTS_PER_REQUEST (startDate window) (endDate window)]\<rparr>
           in case search_get up (startDate window) (endDate window) of
                None \<Rightarrow> ([], st1)
              | Some videoIds \<Rightarrow>
                  (videoIds, st1\<lparr>searchCache := (searchCache st1)(cacheKey \<mapsto> videoIds)\<rparr>)))"

text \<open>
  The loop \<^verbatim>\<open>for (let i = 0; i < uncachedIds.length; i += MAX_IDS_PER_REQUEST)\<close>
  that pushes \<^verbatim>\<open>uncachedIds.slice(i, i + MAX_IDS_PER_REQUEST)\<close>.
\<close>

function batches_from :: "nat \<Rightarrow> string list \<Rightarrow> string list list" where
  "batches_from i uncachedIds =
     (if i < length uncachedIds
      then take MAX_IDS_PER_REQUEST (drop i uncachedIds)
             # batches_from (i + MAX_IDS_PER_REQUEST) uncachedIds
      else [])"
  by pat_completeness auto
termination
  by (relation "measure (\<lambda>(i, uncachedIds). length uncachedIds - i)")
     (auto simp: MAX_IDS_PER_REQUEST_def)

declare batches_from.simps [simp del]

text \<open>
  One element of \<^verbatim>\<open>batches.map(async (batchIds) => ...)\<close> up to its
  \<^verbatim>\<open>await\<close>: both counters go up and the request leaves. Every batch gets this
  far before any response is looked at.
\<close>

definition issue_batch :: "youtube_module \<Rightarrow> string list \<Rightarrow> youtube_module" where
  "issue_batch st batchIds =
     st\<lparr>videoDetailApiCalls := videoDetailApiCalls st + 1,
        totalApiCalls := totalApiCalls st + 1,
        requests := requests st @ [VideosRequest batchIds]\<rparr>"

text \<open>\<^verbatim>\<open>Promise.all\<close>: the list of all results, or a rejection as soon as one promise rejects.\<close>

fun Promise_all :: "'a option list \<Rightarrow> 'a list option" where
  "Promise_all [] = Some []"
| "Promise_all (None # rs) = None"
| "Promise_all (Some x # rs) =
     (case Promise_all rs of None \<Rightarrow> None | Some xs \<Rightarrow> Some (x # xs))"

text \<open>The body of \<^verbatim>\<open>allItems.forEach\<close>: \<^verbatim>\<open>videoCache[item.id] = video\<close>.\<close>

definition cache_video :: "youtube_module \<Rightarrow> Video \<Rightarrow> youtube_module" where
  "cache_video st video = st\<lparr>videoCache := (videoCache st)(video_id video \<mapsto> video)\<rparr>"

text \<open>\<^verbatim>\<open>.filter(Boolean)\<close> on a list of cache reads: the missing entries are dropped.\<close>

fun filter_Boolean :: "'a option list \<Rightarrow> 'a list" where
  "filter_Boolean [] = []"
| "filter_Boolean (None # xs) = filter_Boolean xs"
| "filter_Boolean (Some x # xs) = x # filter_Boolean xs"

text \<open>
  \<^verbatim>\<open>getVideoDetails\<close>. A rejected batch makes \<^verbatim>\<open>Promise.all\<close> reject, and the
  \<^verbatim>\<open>catch\<close> returns what the cache holds; \<^verbatim>\<open>allItems.forEach\<close> has not run then.
\<close>

definition getVideoDetails ::
  "upstream \<Rightarrow> youtube_module \<Rightarrow> string list \<Rightarrow> Video list \<times> youtube_module" where
  "getVideoDetails up st videoIds =
     (if videoIds = [] then ([], st)
      else
        let uncachedIds = filter (\<lambda>i. videoCache st i = None) videoIds in
        if uncachedIds = []
        then (map (\<lambda>i. the (videoCache st i)) videoIds,
              st\<lparr>cachedVideoDetails := cachedVideoDetails st + length videoIds\<rparr>)
        else
          let batches = batches_from 0 uncachedIds;
              st1 = foldl issue_batch st batches
          in case Promise_all (map (videos_get up) batches) of
               None \<Rightarrow> (filter_Boolean (map (videoCache st1) videoIds), st1)
             | Some batchResults \<Rightarrow>
                 (let allItems = concat batchResults;
                      st2 = foldl cache_video st1 allItems
                  in (filter_Boolean (map (videoCache st2) videoIds), st2)))"

text \<open>\<^verbatim>\<open>filterRareVideos\<close>.\<close>

definition filterRareVideos :: "constants \<Rightarrow> Video list \<Rightarrow> Video list" where
  "filterRareVideos cfg vs = filter (\<lambda>video. of_int (viewCount video) < RARE_VIEW_THRESHOLD cfg) vs"

section \<open>Search orchestrator\<close>

text \<open>
  The status messages of the hook are template strings; a message is the template it was
  built from together with the values interpolated into it. Rendering a value as text,
  and the \<^verbatim>\<open>Math.round\<close> of the quotient of the two durations in the
  ``no videos'' message, are left to the reader of the message.
\<close>

datatype status_message =
  Scanning nat number
| NoVideosExpanding number number
| FoundAnalyzing nat
| BusyRefining nat
| ExpandingModerately nat
| ExpandingAggressively nat

text \<open>The \<^verbatim>\<open>useState\<close> cells of \<^verbatim>\<open>useYouTubeSearch\<close>. The field
  \<^verbatim>\<open>error\<close> is \<open>error_message\<close> here.\<close>

record hook_state =
  isLoading :: bool
  videos :: "Video list"
  currentWindow :: "TimeWindow option"
  statusMessage :: "status_message option"
  error_message :: "string option"
  expansionCount :: nat

text \<open>
  \<^verbatim>\<open>searchWithExpansion\<close> calls itself through \<^verbatim>\<open>handleNextSearchStep\<close>, with
  no bound on the depth. One activation is a step: it returns the state it leaves and
  either \<open>Return\<close>, when the activation ends without a further call, or
  \<open>Recurse w n\<close>, the call \<^verbatim>\<open>searchWithExpansion(w, n)\<close> that it ends with. The
  pacing \<^verbatim>\<open>delay\<close> changes no state and is left out.
\<close>

datatype next_call = Return | Recurse TimeWindow nat

definition handleNextSearchStep ::
  "hook_state \<Rightarrow> TimeWindow \<Rightarrow> nat \<Rightarrow> next_call \<times> hook_state" where
  "handleNextSearchStep h nextWindow nextStep =
     (Recurse nextWindow nextStep,
      h\<lparr>expansionCount := nextStep - 1, currentWindow := Some nextWindow\<rparr>)"

definition processAdaptiveSearch ::
  "constants \<Rightarrow> hook_state \<Rightarrow> string list \<Rightarrow> Video list \<Rightarrow> TimeWindow \<Rightarrow> nat
     \<Rightarrow> next_call \<times> hook_state" where
  "processAdaptiveSearch cfg h videoIds videoDetails timeWindow currentStep =
     (let centerTime = getWindowCenter timeWindow;
          nextStep = currentStep + 1
      in
        if of_nat (length videoIds) > BUSY_PERIOD_THRESHOLD cfg then
          (let h1 = h\<lparr>statusMessage := Some (BusyRefining (length videoDetails))\<rparr>;
               newDuration = max (durationMinutes timeWindow * CONTRACTION_FACTOR cfg)
                                 (MIN_WINDOW_DURATION_MINUTES cfg);
               nextWindow = createTimeWindow centerTime newDuration
           in handleNextSearchStep h1 nextWindow nextStep)
        else if of_nat (length videoIds) > MODERATE_PERIOD_THRESHOLD cfg then
          (let h1 = h\<lparr>statusMessage := Some (ExpandingModerately (length videoDetails))\<rparr>;
               nextWindow = expandTimeWindow cfg timeWindow (Some (MODERATE_EXPANSION_FACTOR cfg))
           in handleNextSearchStep h1 nextWindow nextStep)
        else
          (let h1 = h\<lparr>statusMessage := Some (ExpandingAggressively (length videoDetails))\<rparr>;
               nextWindow = expandTimeWindow cfg timeWindow None
           in handleNextSearchStep h1 nextWindow nextStep))"

text \<open>One activation of \<^verbatim>\<open>searchWithExpansion(timeWindow, currentStep)\<close>.\<close>

definition searchWithExpansion_step ::
  "upstream \<Rightarrow> constants \<Rightarrow> hook_state \<times> youtube_module \<Rightarrow> TimeWindow \<Rightarrow> nat
     \<Rightarrow> next_call \<times> hook_state \<times> youtube_module" where
  "searchWithExpansion_step up cfg s timeWindow currentStep =
     (let h0 = (fst s)\<lparr>statusMessage :=
                  Some (Scanning currentStep (durationMinutes timeWindow))\<rparr>;
          (videoIds, st1) = searchVideosInTimeWindow up (snd s) timeWindow
      in
        if length videoIds = 0 then
          (let nextStep = currentStep + 1;
               newWindow = expandTimeWindow cfg timeWindow None;
               h1 = h0\<lparr>statusMessage := Some (NoVideosExpanding
                      (durationMinutes timeWindow) (durationMinutes newWindow))\<rparr>;
               (next, h2) = handleNextSearchStep h1 newWindow nextStep
           in (next, h2, st1))
        else
          (let h1 = h0\<lparr>statusMessage := Some (FoundAnalyzing (length videoIds))\<rparr>;
               (videoDetails, st2) = getVideoDetails up st1 videoIds;
               rareVideos = filterRareVideos cfg videoDetails
           in
             if length rareVideos = 0 then
               (let (next, h2) =
                      processAdaptiveSearch cfg h1 videoIds videoDetails timeWindow currentStep
                in (next, h2, st2))
             else
               (Return, h1\<lparr>videos := rareVideos, statusMessage := None, isLoading := False\<rparr>, st2)))"

text \<open>
  The chain of activations, cut after \<open>fuel\<close> of them: \<open>None\<close> when the chain is
  longer, otherwise the state in which the last activation returns.
\<close>

fun searchWithExpansion ::
  "nat \<Rightarrow> upstream \<Rightarrow> constants \<Rightarrow> hook_state \<times> youtube_module \<Rightarrow> TimeWindow \<Rightarrow> nat
     \<Rightarrow> (hook_state \<times> youtube_module) option" where
  "searchWithExpansion 0 up cfg s timeWindow currentStep = None"
| "searchWithExpansion (Suc fuel) up cfg s timeWindow currentStep =
     (case searchWithExpansion_step up cfg s timeWindow currentStep of
        (Return, s') \<Rightarrow> Some s'
      | (Recurse nextWindow nextStep, s') \<Rightarrow>
          searchWithExpansion fuel up cfg s' nextWindow nextStep)"

text \<open>
  \<^verbatim>\<open>startSearch\<close> up to its call of \<^verbatim>\<open>searchWithExpansion\<close>: the hook state is
  cleared, the counters are reset and the initial window is set. \<open>randomDate\<close> is
  the instant that \<^verbatim>\<open>getRandomPastDate()\<close> returns.
\<close>

definition startSearch_init ::
  "constants \<Rightarrow> instant \<Rightarrow> hook_state \<times> youtube_module
     \<Rightarrow> TimeWindow \<times> hook_state \<times> youtube_module" where
  "startSearch_init cfg randomDate s =
     (let h1 = (fst s)\<lparr>isLoading := True, error_message := None, statusMessage := None,
                       videos := [], expansionCount := 0\<rparr>;
          st1 = reset (snd s);
          initialWindow = createInitialTimeWindow cfg randomDate;
          h2 = h1\<lparr>currentWindow := Some initialWindow\<rparr>
      in (initialWindow, h2, st1))"

text \<open>
  \<^verbatim>\<open>startSearch\<close>. No activation of the model throws, so the \<^verbatim>\<open>catch\<close> of
  \<^verbatim>\<open>startSearch\<close> has no branch here.
\<close>

definition startSearch ::
  "nat \<Rightarrow> upstream \<Rightarrow> constants \<Rightarrow> instant \<Rightarrow> hook_state \<times> youtube_module
     \<Rightarrow> (hook_state \<times> youtube_module) option" where
  "startSearch fuel up cfg randomDate s =
     (let (initialWindow, s1) = startSearch_init cfg randomDate s
      in searchWithExpansion fuel up cfg s1 initialWindow 1)"

section \<open>Invariants and concrete inputs\<close>

text \<open>The relation between the three call counters of \<^verbatim>\<open>apiStats\<close>.\<close>

definition stats_consistent :: "youtube_module \<Rightarrow> bool" where
  "stats_consistent st \<longleftrightarrow> totalApiCalls st = searchApiCalls st + videoDetailApiCalls st"

text \<open>
  Every entry of \<^verbatim>\<open>videoCache\<close> is stored under the id of the video it holds, as
  \<^verbatim>\<open>videoCache[item.id] = video\<close> with \<^verbatim>\<open>video.id = item.id\<close> stores it.
\<close>

definition cache_keyed :: "youtube_module \<Rightarrow> bool" where
  "cache_keyed st \<longleftrightarrow> (\<forall>k v. videoCache st k = Some v \<longrightarrow> video_id v = k)"

text \<open>
  The state of \<^verbatim>\<open>lib/youtube.ts\<close> when the module is loaded, the initial values of
  the \<^verbatim>\<open>useState\<close> cells, and concrete constants, videos, id lists and upstream
  behaviours on which the theorems below are evaluated. \<open>example_upstream found views failing\<close>
  answers every search with \<open>found\<close> and rejects exactly the detail batches of
  \<open>failing\<close> ids; every other batch gets one video of \<open>views\<close> views per id.
  The values of \<open>example_constants\<close> are sample values, not those of
  \<^verbatim>\<open>@/lib/constants\<close>.
\<close>

definition initial_module :: youtube_module where
  "initial_module =
     \<lparr>searchApiCalls = 0, videoDetailApiCalls = 0, totalApiCalls = 0,
      cachedSearches = 0, cachedVideoDetails = 0,
      videoCache = Map.empty, searchCache = Map.empty, requests = []\<rparr>"

definition initial_hook :: hook_state where
  "initial_hook =
     \<lparr>isLoading = False, videos = [], currentWindow = None, statusMessage = None,
      error_message = None, expansionCount = 0\<rparr>"

definition example_constants :: constants where
  "example_constants =
     \<lparr>BUSY_PERIOD_THRESHOLD = 50, MODERATE_PERIOD_THRESHOLD = 10,
      CONTRACTION_FACTOR = 1 / 2, MODERATE_EXPANSION_FACTOR = 2,
      AGGRESSIVE_EXPANSION_FACTOR = 1440, MIN_WINDOW_DURATION_MINUTES = 1,
      RARE_VIEW_THRESHOLD = 10, INITIAL_WINDOW_DURATION_MINUTES = 60\<rparr>"

definition example_window :: TimeWindow where
  "example_window = createInitialTimeWindow example_constants 0"

definition example_video :: "int \<Rightarrow> string \<Rightarrow> Video" where
  "example_video views i =
     \<lparr>video_id = i, title = ''t'', description = ''d'', thumbnailUrl = ''u'',
      publishedAt = ''p'', viewCount = views, channelTitle = ''c''\<rparr>"

definition example_upstream :: "string list option \<Rightarrow> int \<Rightarrow> nat \<Rightarrow> upstream" where
  "example_upstream found views failing =
     \<lparr>search_get = (\<lambda>publishedAfter publishedBefore. found),
      videos_get = (\<lambda>batchIds. if length batchIds = failing then None
                               else Some (map (example_video views) batchIds))\<rparr>"

definition example_ids :: "nat \<Rightarrow> string list" where
  "example_ids k = map (\<lambda>j. replicate (Suc j) CHR ''v'') [0..<k]"

text \<open>
  The state in which a first session ends when the search of \<open>example_window\<close> finds
  three videos of three views each.
\<close>

definition example_first_session :: "hook_state \<times> youtube_module" where
  "example_first_session =
     snd (searchWithExpansion_step (example_upstream (Some (example_ids 3)) 3 0)
            example_constants (initial_hook, initial_module) example_window 1)"

section \<open>Properties of the time-window utilities\<close>

lemma getWindowCenter_createTimeWindow:
  "getWindowCenter (createTimeWindow c d) = c"
  by (simp add: getWindowCenter_def createTimeWindow_def)

lemma durationMinutes_createTimeWindow:
  "durationMinutes (createTimeWindow c d) = d"
  by (simp add: createTimeWindow_def)

text \<open>
  Claim C9. For every window \<open>w\<close> and factor \<open>f\<close> (in particular every \<open>f > 1\<close>),
  \<open>expandTimeWindow\<close> yields a window whose duration is \<open>durationMinutes w * f\<close> and
  whose centre is the centre of \<open>w\<close>; a call without a factor behaves as a call with
  the aggressive expansion constant.
\<close>

theorem expandTimeWindow_duration_center:
  "durationMinutes (expandTimeWindow cfg w (Some f)) = durationMinutes w * f
   \<and> getWindowCenter (expandTimeWindow cfg w (Some f)) = getWindowCenter w
   \<and> expandTimeWindow cfg w None = expandTimeWindow cfg w (Some (AGGRESSIVE_EXPANSION_FACTOR cfg))"
  by (simp add: expandTimeWindow_def getWindowCenter_createTimeWindow
      durationMinutes_createTimeWindow)

theorem expandTimeWindow_duration_center_witness:
  "durationMinutes (expandTimeWindow example_constants example_window (Some 2)) = 120
   \<and> getWindowCenter (expandTimeWindow example_constants example_window (Some 2)) = 0
   \<and> durationMinutes (expandTimeWindow example_constants example_window None) = 86400"
proof -
  have d: "durationMinutes example_window = 60" and c: "getWindowCenter example_window = 0"
    by (simp_all add: example_window_def createInitialTimeWindow_def createTimeWindow_def
        getWindowCenter_def example_constants_def)
  have a: "AGGRESSIVE_EXPANSION_FACTOR example_constants = 1440"
    by (simp add: example_constants_def)
  from expandTimeWindow_duration_center [of example_constants example_window 2]
    expandTimeWindow_duration_center [of example_constants example_window 1440]
  show ?thesis
    by (simp add: d c a)
qed

section \<open>Lemmas about the upstream client and the search steps\<close>

lemma Promise_all_None_iff: "Promise_all rs = None \<longleftrightarrow> None \<in> set rs"
  by (induction rs rule: Promise_all.induct) (auto split: option.splits)

lemma foldl_issue_batch_requests:
  "requests (foldl issue_batch st bs) = requests st @ map VideosRequest bs"
  by (induction bs arbitrary: st) (simp_all add: issue_batch_def)

lemma foldl_issue_batch_counters:
  "videoDetailApiCalls (foldl issue_batch st bs) = videoDetailApiCalls st + length bs"
  "totalApiCalls (foldl issue_batch st bs) = totalApiCalls st + length bs"
  "searchApiCalls (foldl issue_batch st bs) = searchApiCalls st"
  "cachedSearches (foldl issue_batch st bs) = cachedSearches st"
  "cachedVideoDetails (foldl issue_batch st bs) = cachedVideoDetails st"
  "videoCache (foldl issue_batch st bs) = videoCache st"
  "searchCache (foldl issue_batch st bs) = searchCache st"
  by (induction bs arbitrary: st) (simp_all add: issue_batch_def)

lemma foldl_cache_video_frame:
  "videoDetailApiCalls (foldl cache_video st vs) = videoDetailApiCalls st"
  "totalApiCalls (foldl cache_video st vs) = totalApiCalls st"
  "searchApiCalls (foldl cache_video st vs) = searchApiCalls st"
  "cachedSearches (foldl cache_video st vs) = cachedSearches st"
  "cachedVideoDetails (foldl cache_video st vs) = cachedVideoDetails st"
  "requests (foldl cache_video st vs) = requests st"
  "searchCache (foldl cache_video st vs) = searchCache st"
  by (induction vs arbitrary: st) (simp_all add: cache_video_def)

lemma foldl_cache_video_dom:
  "dom (videoCache (foldl cache_video st vs)) = dom (videoCache st) \<union> video_id ` set vs"
  by (induction vs arbitrary: st) (auto simp: cache_video_def)

lemma filter_Boolean_map_the:
  "\<forall>i \<in> set xs. m i \<noteq> None \<Longrightarrow> filter_Boolean (map m xs) = map (\<lambda>i. the (m i)) xs"
  by (induction xs) auto

lemma filter_Boolean_ids:
  "\<forall>k v. m k = Some v \<longrightarrow> video_id v = k \<Longrightarrow>
   map video_id (filter_Boolean (map m xs)) = filter (\<lambda>i. m i \<noteq> None) xs"
  by (induction xs) auto

lemma div50_add: "(a + 50) div 50 = Suc (a div (50::nat))"
  by simp

lemma div50_one: "50 \<le> m \<Longrightarrow> m < 100 \<Longrightarrow> m div (50::nat) = 1"
  by (rule div_nat_eqI) simp_all

lemma ceil_div_step:
  fixes n i :: nat
  assumes "i < n"
  shows "Suc ((n - (i + 50) + 49) div 50) = (n - i + 49) div 50"
proof (cases "i + 50 \<le> n")
  case True
  then have "n - i + 49 = (n - (i + 50) + 49) + 50" by linarith
  then have "(n - i + 49) div 50 = ((n - (i + 50) + 49) + 50) div 50"
    by (rule arg_cong)
  also have "\<dots> = Suc ((n - (i + 50) + 49) div 50)"
    by (rule div50_add)
  finally show ?thesis by (rule sym)
next
  case False
  with assms have z: "n - (i + 50) = 0" and "50 \<le> n - i + 49" and "n - i + 49 < 100"
    by linarith+
  then have "(n - i + 49) div 50 = 1" by (intro div50_one)
  moreover have "(n - (i + 50) + 49) div 50 = 0" unfolding z by simp
  ultimately show ?thesis by (simp only: One_nat_def)
qed

lemma batches_from_step:
  "i < length xs \<Longrightarrow>
   batches_from i xs = take MAX_IDS_PER_REQUEST (drop i xs) # batches_from (i + MAX_IDS_PER_REQUEST) xs"
  by (subst batches_from.simps) simp

lemma batches_from_done: "\<not> i < length xs \<Longrightarrow> batches_from i xs = []"
  by (subst batches_from.simps) simp

lemma length_batches_from:
  "length (batches_from i xs) = (length xs - i + 49) div 50"
proof (induction i xs rule: batches_from.induct)
  case (1 i xs)
  show ?case
  proof (cases "i < length xs")
    case True
    have "length (batches_from i xs) = Suc (length (batches_from (i + MAX_IDS_PER_REQUEST) xs))"
      using True by (simp only: batches_from_step list.size length_Cons)
    also have "\<dots> = Suc ((length xs - (i + 50) + 49) div 50)"
      using 1 [OF True] by (simp only: MAX_IDS_PER_REQUEST_def)
    also have "\<dots> = (length xs - i + 49) div 50"
      using True by (rule ceil_div_step)
    finally show ?thesis .
  next
    case False
    then show ?thesis
      by (simp add: batches_from_done)
  qed
qed

lemma batches_from_bounded:
  "b \<in> set (batches_from i xs) \<Longrightarrow> b \<noteq> [] \<and> length b \<le> MAX_IDS_PER_REQUEST"
proof (induction i xs rule: batches_from.induct)
  case (1 i xs)
  show ?case
  proof (cases "i < length xs")
    case True
    from 1(2) have "b = take MAX_IDS_PER_REQUEST (drop i xs)
        \<or> b \<in> set (batches_from (i + MAX_IDS_PER_REQUEST) xs)"
      by (simp only: batches_from_step [OF True] set_simps insert_iff)
    then show ?thesis
    proof
      assume "b = take MAX_IDS_PER_REQUEST (drop i xs)"
      with True show ?thesis by (simp add: MAX_IDS_PER_REQUEST_def)
    next
      assume "b \<in> set (batches_from (i + MAX_IDS_PER_REQUEST) xs)"
      then show ?thesis by (rule 1(1) [OF True])
    qed
  next
    case False
    with 1(2) show ?thesis
      by (simp add: batches_from_done)
  qed
qed

lemma concat_batches_from: "concat (batches_from i xs) = drop i xs"
proof (induction i xs rule: batches_from.induct)
  case (1 i xs)
  show ?case
  proof (cases "i < length xs")
    case True
    have "concat (batches_from i xs)
        = take MAX_IDS_PER_REQUEST (drop i xs) @ concat (batches_from (i + MAX_IDS_PER_REQUEST) xs)"
      by (simp only: batches_from_step [OF True] concat.simps)
    also have "\<dots> = take MAX_IDS_PER_REQUEST (drop i xs) @ drop MAX_IDS_PER_REQUEST (drop i xs)"
      by (simp only: 1 [OF True] drop_drop add.commute [of MAX_IDS_PER_REQUEST i])
    also have "\<dots> = drop i xs"
      by (rule append_take_drop_id)
    finally show ?thesis .
  next
    case False
    then show ?thesis
      by (simp add: batches_from_done)
  qed
qed

lemma ceiling_div50: "\<lceil>rat_of_nat n / rat_of_nat 50\<rceil> = int ((n + 49) div 50)"
proof -
  have "\<lceil>rat_of_nat n / rat_of_nat 50\<rceil> = \<lceil>rat_of_int (int n) / rat_of_int 50\<rceil>" by simp
  also have "\<dots> = - (- int n div 50)" by (rule ceiling_divide_eq_div)
  also have "\<dots> = int ((n + 49) div 50)" by linarith
  finally show ?thesis .
qed

lemma batches_from_Nil: "batches_from 0 [] = []"
  by (simp add: batches_from_done)

lemma getVideoDetails_all_cached:
  assumes "videoIds \<noteq> []" and "filter (\<lambda>i. videoCache st i = None) videoIds = []"
  shows "getVideoDetails up st videoIds =
     (map (\<lambda>i. the (videoCache st i)) videoIds,
      st\<lparr>cachedVideoDetails := cachedVideoDetails st + length videoIds\<rparr>)"
  using assms by (simp add: getVideoDetails_def)

lemma getVideoDetails_rejected:
  assumes "filter (\<lambda>i. videoCache st i = None) videoIds \<noteq> []"
    and "Promise_all (map (videos_get up)
           (batches_from 0 (filter (\<lambda>i. videoCache st i = None) videoIds))) = None"
  shows "getVideoDetails up st videoIds =
     (filter_Boolean (map (videoCache st) videoIds),
      foldl issue_batch st (batches_from 0 (filter (\<lambda>i. videoCache st i = None) videoIds)))"
proof -
  from assms(1) have "videoIds \<noteq> []" by auto
  with assms show ?thesis
    by (simp add: getVideoDetails_def Let_def foldl_issue_batch_counters)
qed

lemma getVideoDetails_resolved:
  assumes "filter (\<lambda>i. videoCache st i = None) videoIds \<noteq> []"
    and "Promise_all (map (videos_get up)
           (batches_from 0 (filter (\<lambda>i. videoCache st i = None) videoIds))) = Some batchResults"
  shows "getVideoDetails up st videoIds =
     (filter_Boolean (map (videoCache
         (foldl cache_video
           (foldl issue_batch st (batches_from 0 (filter (\<lambda>i. videoCache st i = None) videoIds)))
           (concat batchResults))) videoIds),
      foldl cache_video
        (foldl issue_batch st (batches_from 0 (filter (\<lambda>i. videoCache st i = None) videoIds)))
        (concat batchResults))"
proof -
  from assms(1) have "videoIds \<noteq> []" by auto
  with assms show ?thesis
    by (simp add: getVideoDetails_def Let_def)
qed

lemma getVideoDetails_requests:
  "requests (snd (getVideoDetails up st videoIds)) =
     requests st @ map VideosRequest (batches_from 0 (filter (\<lambda>i. videoCache st i = None) videoIds))"
proof (cases "filter (\<lambda>i. videoCache st i = None) videoIds = []")
  case True
  then show ?thesis
    by (cases "videoIds = []") (simp_all add: getVideoDetails_def batches_from_Nil)
next
  case False
  show ?thesis
  proof (cases "Promise_all (map (videos_get up)
           (batches_from 0 (filter (\<lambda>i. videoCache st i = None) videoIds)))")
    case None
    then show ?thesis
      by (simp add: getVideoDetails_rejected [OF False] foldl_issue_batch_requests)
  next
    case (Some rs)
    then show ?thesis
      by (simp add: getVideoDetails_resolved [OF False] foldl_issue_batch_requests
          foldl_cache_video_frame)
  qed
qed

lemma getVideoDetails_calls:
  "videoDetailApiCalls (snd (getVideoDetails up st videoIds)) =
     videoDetailApiCalls st + length (batches_from 0 (filter (\<lambda>i. videoCache st i = None) videoIds))"
  "totalApiCalls (snd (getVideoDetails up st videoIds)) =
     totalApiCalls st + length (batches_from 0 (filter (\<lambda>i. videoCache st i = None) videoIds))"
  "searchApiCalls (snd (getVideoDetails up st videoIds)) = searchApiCalls st"
  "searchCache (snd (getVideoDetails up st videoIds)) = searchCache st"
  "cachedSearches (snd (getVideoDetails up st videoIds)) = cachedSearches st"
proof -
  let ?u = "filter (\<lambda>i. videoCache st i = None) videoIds"
  let ?p = "Promise_all (map (videos_get up) (batches_from 0 ?u))"
  consider (cached) "?u = []" | (rejected) "?u \<noteq> []" "?p = None"
    | (resolved) rs where "?u \<noteq> []" "?p = Some rs"
    by (cases ?p) auto
  note cases = this
  show "videoDetailApiCalls (snd (getVideoDetails up st videoIds)) =
     videoDetailApiCalls st + length (batches_from 0 ?u)"
    using cases
  proof cases
    case cached
    then show ?thesis by (cases "videoIds = []") (simp_all add: getVideoDetails_def batches_from_Nil)
  next
    case rejected
    then show ?thesis by (simp add: getVideoDetails_rejected foldl_issue_batch_counters)
  next
    case resolved
    then show ?thesis
      by (simp add: getVideoDetails_resolved foldl_issue_batch_counters foldl_cache_video_frame)
  qed
  show "totalApiCalls (snd (getVideoDetails up st videoIds)) =
     totalApiCalls st + length (batches_from 0 ?u)"
    using cases
  proof cases
    case cached
    then show ?thesis by (cases "videoIds = []") (simp_all add: getVideoDetails_def batches_from_Nil)
  next
    case rejected
    then show ?thesis by (simp add: getVideoDetails_rejected foldl_issue_batch_counters)
  next
    case resolved
    then show ?thesis
      by (simp add: getVideoDetails_resolved foldl_issue_batch_counters foldl_cache_video_frame)
  qed
  show "searchApiCalls (snd (getVideoDetails up st videoIds)) = searchApiCalls st"
    using cases
  proof cases
    case cached
    then show ?thesis by (cases "videoIds = []") (simp_all add: getVideoDetails_def)
  next
    case rejected
    then show ?thesis by (simp add: getVideoDetails_rejected foldl_issue_batch_counters)
  next
    case resolved
    then show ?thesis
      by (simp add: getVideoDetails_resolved foldl_issue_batch_counters foldl_cache_video_frame)
  qed
  show "searchCache (snd (getVideoDetails up st videoIds)) = searchCache st"
    using cases
  proof cases
    case cached
    then show ?thesis by (cases "videoIds = []") (simp_all add: getVideoDetails_def)
  next
    case rejected
    then show ?thesis by (simp add: getVideoDetails_rejected foldl_issue_batch_counters)
  next
    case resolved
    then show ?thesis
      by (simp add: getVideoDetails_resolved foldl_issue_batch_counters foldl_cache_video_frame)
  qed
  show "cachedSearches (snd (getVideoDetails up st videoIds)) = cachedSearches st"
    using cases
  proof cases
    case cached
    then show ?thesis by (cases "videoIds = []") (simp_all add: getVideoDetails_def)
  next
    case rejected
    then show ?thesis by (simp add: getVideoDetails_rejected foldl_issue_batch_counters)
  next
    case resolved
    then show ?thesis
      by (simp add: getVideoDetails_resolved foldl_issue_batch_counters foldl_cache_video_frame)
  qed
qed

lemma getVideoDetails_result:
  "fst (getVideoDetails up st videoIds) =
     filter_Boolean (map (videoCache (snd (getVideoDetails up st videoIds))) videoIds)"
proof (cases "filter (\<lambda>i. videoCache st i = None) videoIds = []")
  case True
  then have all: "\<forall>i \<in> set videoIds. videoCache st i \<noteq> None"
    by (simp add: filter_empty_conv)
  show ?thesis
  proof (cases "videoIds = []")
    case True
    then show ?thesis by (simp add: getVideoDetails_def)
  next
    case False
    with True show ?thesis
      by (simp add: getVideoDetails_all_cached filter_Boolean_map_the [OF all])
  qed
next
  case False
  show ?thesis
  proof (cases "Promise_all (map (videos_get up)
           (batches_from 0 (filter (\<lambda>i. videoCache st i = None) videoIds)))")
    case None
    then show ?thesis
      by (simp add: getVideoDetails_rejected [OF False] foldl_issue_batch_counters)
  next
    case (Some rs)
    then show ?thesis
      by (simp add: getVideoDetails_resolved [OF False])
  qed
qed

lemma getVideoDetails_dom:
  "dom (videoCache st) \<subseteq> dom (videoCache (snd (getVideoDetails up st videoIds)))"
proof (cases "filter (\<lambda>i. videoCache st i = None) videoIds = []")
  case True
  then show ?thesis
    by (cases "videoIds = []") (simp_all add: getVideoDetails_def)
next
  case False
  show ?thesis
  proof (cases "Promise_all (map (videos_get up)
           (batches_from 0 (filter (\<lambda>i. videoCache st i = None) videoIds)))")
    case None
    then show ?thesis
      by (simp add: getVideoDetails_rejected [OF False] foldl_issue_batch_counters)
  next
    case (Some rs)
    then show ?thesis
      by (simp add: getVideoDetails_resolved [OF False] foldl_cache_video_dom
          foldl_issue_batch_counters)
  qed
qed

lemma searchVideosInTimeWindow_hit:
  "searchCache st (getSearchCacheKey w) = Some ids \<Longrightarrow>
   searchVideosInTimeWindow up st w = (ids, st\<lparr>cachedSearches := cachedSearches st + 1\<rparr>)"
  by (simp add: searchVideosInTimeWindow_def)

lemma searchVideosInTimeWindow_miss_ok:
  "searchCache st (getSearchCacheKey w) = None \<Longrightarrow>
   search_get up (startDate w) (endDate w) = Some ids \<Longrightarrow>
   searchVideosInTimeWindow up st w =
     (ids, st\<lparr>searchApiCalls := searchApiCalls st + 1,
              totalApiCalls := totalApiCalls st + 1,
              requests := requests st @
                [SearchRequest MAX_RESULTS_PER_REQUEST (startDate w) (endDate w)],
              searchCache := (searchCache st)(getSearchCacheKey w \<mapsto> ids)\<rparr>)"
  by (simp add: searchVideosInTimeWindow_def)

lemma searchVideosInTimeWindow_miss_failed:
  "searchCache st (getSearchCacheKey w) = None \<Longrightarrow>
   search_get up (startDate w) (endDate w) = None \<Longrightarrow>
   searchVideosInTimeWindow up st w =
     ([], st\<lparr>searchApiCalls := searchApiCalls st + 1,
             totalApiCalls := totalApiCalls st + 1,
             requests := requests st @
               [SearchRequest MAX_RESULTS_PER_REQUEST (startDate w) (endDate w)]\<rparr>)"
  by (simp add: searchVideosInTimeWindow_def)

lemma searchVideosInTimeWindow_consistent:
  "stats_consistent st \<Longrightarrow> stats_consistent (snd (searchVideosInTimeWindow up st w))"
  by (simp add: searchVideosInTimeWindow_def stats_consistent_def Let_def split: option.splits)

lemma getVideoDetails_consistent:
  "stats_consistent st \<Longrightarrow> stats_consistent (snd (getVideoDetails up st videoIds))"
  by (simp add: stats_consistent_def getVideoDetails_calls)

lemma step_module:
  "snd (snd (searchWithExpansion_step up cfg s w n)) =
     (let r = searchVideosInTimeWindow up (snd s) w
      in if fst r = [] then snd r else snd (getVideoDetails up (snd r) (fst r)))"
  by (simp add: searchWithExpansion_step_def Let_def split: prod.splits)

lemma step_consistent:
  "stats_consistent (snd s) \<Longrightarrow>
   stats_consistent (snd (snd (searchWithExpansion_step up cfg s w n)))"
  by (simp add: step_module Let_def searchVideosInTimeWindow_consistent getVideoDetails_consistent)

lemma searchWithExpansion_consistent:
  "searchWithExpansion fuel up cfg s w n = Some s' \<Longrightarrow> stats_consistent (snd s) \<Longrightarrow>
   stats_consistent (snd s')"
proof (induction fuel arbitrary: s w n)
  case 0
  then show ?case by simp
next
  case (Suc fuel)
  obtain nxt h1 st1 where step: "searchWithExpansion_step up cfg s w n = (nxt, h1, st1)"
    by (cases "searchWithExpansion_step up cfg s w n") auto
  have c1: "stats_consistent st1"
    using step_consistent [OF Suc.prems(2), of up cfg w n] step by simp
  show ?case
  proof (cases nxt)
    case Return
    with Suc.prems(1) step c1 show ?thesis by auto
  next
    case (Recurse w' n')
    with Suc.prems(1) step have "searchWithExpansion fuel up cfg (h1, st1) w' n' = Some s'"
      by simp
    from Suc.IH [OF this] c1 show ?thesis by simp
  qed
qed

lemma searchVideosInTimeWindow_frame:
  "videoCache (snd (searchVideosInTimeWindow up st w)) = videoCache st"
  "searchCache st \<subseteq>\<^sub>m searchCache (snd (searchVideosInTimeWindow up st w))"
  by (auto simp: searchVideosInTimeWindow_def Let_def map_le_def split: option.splits)

lemma step_caches_grow:
  "searchCache (snd s) \<subseteq>\<^sub>m searchCache (snd (snd (searchWithExpansion_step up cfg s w n)))"
  "dom (videoCache (snd s)) \<subseteq> dom (videoCache (snd (snd (searchWithExpansion_step up cfg s w n))))"
proof -
  let ?r = "searchVideosInTimeWindow up (snd s) w"
  show "searchCache (snd s) \<subseteq>\<^sub>m searchCache (snd (snd (searchWithExpansion_step up cfg s w n)))"
    by (simp add: step_module Let_def getVideoDetails_calls searchVideosInTimeWindow_frame)
  have "dom (videoCache (snd s)) = dom (videoCache (snd ?r))"
    by (simp add: searchVideosInTimeWindow_frame)
  also have "\<dots> \<subseteq> dom (videoCache (snd (getVideoDetails up (snd ?r) (fst ?r))))"
    by (rule getVideoDetails_dom)
  finally show "dom (videoCache (snd s)) \<subseteq> dom (videoCache (snd (snd (searchWithExpansion_step up cfg s w n))))"
    by (simp add: step_module Let_def searchVideosInTimeWindow_frame)
qed

lemma searchWithExpansion_caches_grow:
  "searchWithExpansion fuel up cfg s w n = Some s' \<Longrightarrow>
   searchCache (snd s) \<subseteq>\<^sub>m searchCache (snd s') \<and> dom (videoCache (snd s)) \<subseteq> dom (videoCache (snd s'))"
proof (induction fuel arbitrary: s w n)
  case 0
  then show ?case by simp
next
  case (Suc fuel)
  obtain nxt h1 st1 where step: "searchWithExpansion_step up cfg s w n = (nxt, h1, st1)"
    by (cases "searchWithExpansion_step up cfg s w n") auto
  have g1: "searchCache (snd s) \<subseteq>\<^sub>m searchCache st1" "dom (videoCache (snd s)) \<subseteq> dom (videoCache st1)"
    using step_caches_grow [of s up cfg w n] step by simp_all
  show ?case
  proof (cases nxt)
    case Return
    with Suc.prems step g1 show ?thesis by auto
  next
    case (Recurse w' n')
    with Suc.prems step have "searchWithExpansion fuel up cfg (h1, st1) w' n' = Some s'"
      by simp
    from Suc.IH [OF this] have "searchCache st1 \<subseteq>\<^sub>m searchCache (snd s')"
      and "dom (videoCache st1) \<subseteq> dom (videoCache (snd s'))" by simp_all
    with g1 show ?thesis
      by (blast intro: map_le_trans)
  qed
qed

lemma step_search_failed:
  assumes "searchCache (snd s) (getSearchCacheKey w) = None"
    and "search_get up (startDate w) (endDate w) = None"
  shows "fst (searchWithExpansion_step up cfg s w n) = Recurse (expandTimeWindow cfg w None) (n + 1)"
  by (simp add: searchWithExpansion_step_def searchVideosInTimeWindow_miss_failed [OF assms]
      handleNextSearchStep_def Let_def)

lemma some_batch_rejected:
  assumes "b \<in> set (batches_from 0 (filter (\<lambda>i. videoCache st i = None) videoIds))"
    and "videos_get up b = None"
  shows "getVideoDetails up st videoIds =
     (filter_Boolean (map (videoCache st) videoIds),
      foldl issue_batch st (batches_from 0 (filter (\<lambda>i. videoCache st i = None) videoIds)))"
proof (rule getVideoDetails_rejected)
  show "filter (\<lambda>i. videoCache st i = None) videoIds \<noteq> []"
    using assms(1) by (auto simp: batches_from_Nil)
  show "Promise_all (map (videos_get up)
          (batches_from 0 (filter (\<lambda>i. videoCache st i = None) videoIds))) = None"
    using assms by (force simp: Promise_all_None_iff)
qed

lemma filter_Boolean_set:
  "v \<in> set (filter_Boolean (map m xs)) \<longleftrightarrow> (\<exists>i \<in> set xs. m i = Some v)"
proof (induction xs)
  case Nil
  then show ?case by simp
next
  case (Cons a xs)
  then show ?case by (cases "m a") auto
qed

lemma cache_video_keyed: "cache_keyed st \<Longrightarrow> cache_keyed (cache_video st v)"
  by (simp add: cache_keyed_def cache_video_def)

lemma foldl_cache_video_keyed:
  "cache_keyed st \<Longrightarrow> cache_keyed (foldl cache_video st vs)"
  by (induction vs arbitrary: st) (simp_all add: cache_video_keyed)

lemma foldl_issue_batch_keyed:
  "cache_keyed (foldl issue_batch st bs) = cache_keyed st"
  by (simp add: cache_keyed_def foldl_issue_batch_counters)

lemma getVideoDetails_keyed:
  "cache_keyed st \<Longrightarrow> cache_keyed (snd (getVideoDetails up st videoIds))"
proof (cases "filter (\<lambda>i. videoCache st i = None) videoIds = []")
  case True
  assume "cache_keyed st"
  with True show ?thesis
    by (cases "videoIds = []") (simp_all add: getVideoDetails_def cache_keyed_def)
next
  case False
  assume k: "cache_keyed st"
  show ?thesis
  proof (cases "Promise_all (map (videos_get up)
           (batches_from 0 (filter (\<lambda>i. videoCache st i = None) videoIds)))")
    case None
    with k show ?thesis
      by (simp add: getVideoDetails_rejected [OF False] foldl_issue_batch_keyed)
  next
    case (Some rs)
    with k show ?thesis
      by (simp add: getVideoDetails_resolved [OF False] foldl_cache_video_keyed
          foldl_issue_batch_keyed)
  qed
qed

lemma getVideoDetails_ids_in_order:
  assumes "cache_keyed st"
  shows "map video_id (fst (getVideoDetails up st videoIds)) =
     filter (\<lambda>i. videoCache (snd (getVideoDetails up st videoIds)) i \<noteq> None) videoIds"
proof -
  from getVideoDetails_keyed [OF assms, of up videoIds]
  have "\<forall>k v. videoCache (snd (getVideoDetails up st videoIds)) k = Some v \<longrightarrow> video_id v = k"
    by (simp add: cache_keyed_def)
  from filter_Boolean_ids [OF this, of videoIds] show ?thesis
    by (simp add: getVideoDetails_result [symmetric])
qed

lemma getVideoDetails_resolved_dom:
  assumes "Promise_all (map (videos_get up)
           (batches_from 0 (filter (\<lambda>i. videoCache st i = None) videoIds))) = Some rs"
    and "filter (\<lambda>i. videoCache st i = None) videoIds \<noteq> []"
  shows "dom (videoCache (snd (getVideoDetails up st videoIds))) =
     dom (videoCache st) \<union> video_id ` set (concat rs)"
  by (simp add: getVideoDetails_resolved [OF assms(2,1)] foldl_cache_video_dom
      foldl_issue_batch_counters)

section \<open>The search orchestrator\<close>

text \<open>
  Claim C1. In a step whose candidate list is not empty and whose details hold no rare
  video, the next window is chosen by the number of candidate ids: above the busy
  threshold the window is contracted to
  \<open>max (duration * CONTRACTION_FACTOR) MIN_WINDOW_DURATION_MINUTES\<close> around the same
  centre; above the moderate threshold and at most the busy one it is expanded by the
  moderate factor; at most the moderate threshold it is expanded by the aggressive
  factor. The step ends with the call for that window and the next step number. The
  moderate threshold is taken to be at most the busy one, as the middle case of the
  classification presupposes.
\<close>

theorem adaptive_step_classification:
  assumes search: "searchVideosInTimeWindow up st w = (videoIds, st1)"
    and nonempty: "videoIds \<noteq> []"
    and details: "getVideoDetails up st1 videoIds = (videoDetails, st2)"
    and no_rare: "filterRareVideos cfg videoDetails = []"
    and ordered: "MODERATE_PERIOD_THRESHOLD cfg \<le> BUSY_PERIOD_THRESHOLD cfg"
  shows "(BUSY_PERIOD_THRESHOLD cfg < of_nat (length videoIds) \<longrightarrow>
            fst (searchWithExpansion_step up cfg (h, st) w n) =
              Recurse (createTimeWindow (getWindowCenter w)
                        (max (durationMinutes w * CONTRACTION_FACTOR cfg)
                             (MIN_WINDOW_DURATION_MINUTES cfg)))
                      (n + 1))
       \<and> (MODERATE_PERIOD_THRESHOLD cfg < of_nat (length videoIds)
            \<and> of_nat (length videoIds) \<le> BUSY_PERIOD_THRESHOLD cfg \<longrightarrow>
            fst (searchWithExpansion_step up cfg (h, st) w n) =
              Recurse (expandTimeWindow cfg w (Some (MODERATE_EXPANSION_FACTOR cfg))) (n + 1))
       \<and> (of_nat (length videoIds) \<le> MODERATE_PERIOD_THRESHOLD cfg \<longrightarrow>
            fst (searchWithExpansion_step up cfg (h, st) w n) =
              Recurse (expandTimeWindow cfg w (Some (AGGRESSIVE_EXPANSION_FACTOR cfg))) (n + 1))"
  using assms
  by (simp add: searchWithExpansion_step_def processAdaptiveSearch_def handleNextSearchStep_def
      Let_def expandTimeWindow_def)

theorem adaptive_step_classification_witness:
  "example_ids 3 \<noteq> []
   \<and> MODERATE_PERIOD_THRESHOLD example_constants \<le> BUSY_PERIOD_THRESHOLD example_constants
   \<and> filterRareVideos example_constants
        (fst (getVideoDetails (example_upstream (Some (example_ids 3)) 100 0)
           (snd (searchVideosInTimeWindow (example_upstream (Some (example_ids 3)) 100 0)
                   initial_module example_window))
           (example_ids 3))) = []
   \<and> fst (searchWithExpansion_step (example_upstream (Some (example_ids 3)) 100 0)
          example_constants (initial_hook, initial_module) example_window 1) =
       Recurse (expandTimeWindow example_constants example_window (Some 1440)) 2"
proof -
  let ?up = "example_upstream (Some (example_ids 3)) 100 0"
  let ?r = "searchVideosInTimeWindow ?up initial_module example_window"
  let ?d = "getVideoDetails ?up (snd ?r) (example_ids 3)"
  have "fst ?r = example_ids 3" by code_simp
  then have search: "?r = (example_ids 3, snd ?r)" by (simp add: prod_eq_iff)
  have ne: "example_ids 3 \<noteq> []" by code_simp
  have details: "?d = (fst ?d, snd ?d)" by simp
  have no_rare: "filterRareVideos example_constants (fst ?d) = []" by code_simp
  have ordered: "MODERATE_PERIOD_THRESHOLD example_constants
      \<le> BUSY_PERIOD_THRESHOLD example_constants"
    by (simp add: example_constants_def)
  have few: "rat_of_nat (length (example_ids 3)) \<le> MODERATE_PERIOD_THRESHOLD example_constants"
    by (simp add: example_constants_def example_ids_def)
  have agg: "AGGRESSIVE_EXPANSION_FACTOR example_constants = 1440"
    by (simp add: example_constants_def)
  from adaptive_step_classification [OF search ne details no_rare ordered, of initial_hook 1] few
  have "fst (searchWithExpansion_step ?up example_constants (initial_hook, initial_module)
          example_window 1) =
       Recurse (expandTimeWindow example_constants example_window
                  (Some (AGGRESSIVE_EXPANSION_FACTOR example_constants))) (1 + 1)"
    by blast
  with ne ordered no_rare show ?thesis
    by (simp add: agg)
qed

text \<open>
  Claim C2. In a step whose fetched details hold at least one video with
  \<open>viewCount\<close> below the threshold, the activation ends without a further call, the
  result is exactly the details below the threshold (what \<open>filterRareVideos\<close> keeps),
  the status message is cleared and the loading flag is cleared; the chain of
  activations ends there, whatever fuel is left.
\<close>

theorem rare_videos_end_the_search:
  assumes search: "searchVideosInTimeWindow up st w = (videoIds, st1)"
    and details: "getVideoDetails up st1 videoIds = (videoDetails, st2)"
    and rare: "\<exists>d \<in> set videoDetails. of_int (viewCount d) < RARE_VIEW_THRESHOLD cfg"
  shows "\<exists>h'. searchWithExpansion_step up cfg (h, st) w n = (Return, h', st2)
     \<and> videos h' = filter (\<lambda>d. of_int (viewCount d) < RARE_VIEW_THRESHOLD cfg) videoDetails
     \<and> videos h' = filterRareVideos cfg videoDetails
     \<and> statusMessage h' = None \<and> isLoading h' = False
     \<and> searchWithExpansion (Suc fuel) up cfg (h, st) w n = Some (h', st2)"
proof -
  have ne: "videoIds \<noteq> []"
    using details rare by (auto simp: getVideoDetails_def)
  have found: "filterRareVideos cfg videoDetails \<noteq> []"
    using rare by (auto simp: filterRareVideos_def filter_empty_conv)
  show ?thesis
    using search details ne found
    by (simp add: searchWithExpansion_step_def Let_def filterRareVideos_def)
qed

theorem rare_videos_end_the_search_witness:
  "(\<exists>d \<in> set (fst (getVideoDetails (example_upstream (Some (example_ids 3)) 3 0)
           (snd (searchVideosInTimeWindow (example_upstream (Some (example_ids 3)) 3 0)
                   initial_module example_window))
           (example_ids 3))).
      of_int (viewCount d) < RARE_VIEW_THRESHOLD example_constants)
   \<and> fst (searchWithExpansion_step (example_upstream (Some (example_ids 3)) 3 0)
          example_constants (initial_hook, initial_module) example_window 1) = Return
   \<and> videos (fst (snd (searchWithExpansion_step (example_upstream (Some (example_ids 3)) 3 0)
          example_constants (initial_hook, initial_module) example_window 1))) =
       map (example_video 3) (example_ids 3)
   \<and> statusMessage (fst (snd (searchWithExpansion_step (example_upstream (Some (example_ids 3)) 3 0)
          example_constants (initial_hook, initial_module) example_window 1))) = None"
proof -
  let ?up = "example_upstream (Some (example_ids 3)) 3 0"
  let ?r = "searchVideosInTimeWindow ?up initial_module example_window"
  let ?d = "getVideoDetails ?up (snd ?r) (example_ids 3)"
  let ?step = "searchWithExpansion_step ?up example_constants (initial_hook, initial_module)
                 example_window 1"
  have "fst ?r = example_ids 3" by code_simp
  then have search: "?r = (example_ids 3, snd ?r)" by (simp add: prod_eq_iff)
  have details: "?d = (fst ?d, snd ?d)" by simp
  have found: "fst ?d = map (example_video 3) (example_ids 3)" by code_simp
  have "example_video 3 ''v'' \<in> set (fst ?d)" by code_simp
  moreover have "of_int (viewCount (example_video 3 ''v'')) < RARE_VIEW_THRESHOLD example_constants"
    by (simp add: example_video_def example_constants_def)
  ultimately have rare: "\<exists>d \<in> set (fst ?d).
      of_int (viewCount d) < RARE_VIEW_THRESHOLD example_constants" by blast
  have all: "filterRareVideos example_constants (fst ?d) = map (example_video 3) (example_ids 3)"
    by code_simp
  from rare_videos_end_the_search [OF search details rare, of initial_hook 1 0]
  obtain h' where "?step = (Return, h', snd ?d)"
    and "videos h' = filterRareVideos example_constants (fst ?d)"
    and "statusMessage h' = None" by blast
  with rare all show ?thesis by simp
qed

text \<open>
  Claim C8. In the busy branch of \<open>processAdaptiveSearch\<close>, for every window, every
  contraction factor (in particular every factor below 1) and every floor, the next
  window has the duration \<open>max (duration * CONTRACTION_FACTOR) MIN_WINDOW_DURATION_MINUTES\<close>
  and the centre of the current window, so its duration is never below the floor.
\<close>

theorem contraction_keeps_center_and_floor:
  assumes busy: "BUSY_PERIOD_THRESHOLD cfg < of_nat (length videoIds)"
  shows "\<exists>w' h'. processAdaptiveSearch cfg h videoIds videoDetails w n = (Recurse w' (n + 1), h')
     \<and> durationMinutes w' =
         max (durationMinutes w * CONTRACTION_FACTOR cfg) (MIN_WINDOW_DURATION_MINUTES cfg)
     \<and> getWindowCenter w' = getWindowCenter w
     \<and> MIN_WINDOW_DURATION_MINUTES cfg \<le> durationMinutes w'"
  using busy
  by (simp add: processAdaptiveSearch_def handleNextSearchStep_def Let_def
      getWindowCenter_createTimeWindow durationMinutes_createTimeWindow)

theorem contraction_keeps_center_and_floor_witness:
  "BUSY_PERIOD_THRESHOLD example_constants < of_nat (length (example_ids 51))
   \<and> fst (processAdaptiveSearch example_constants initial_hook (example_ids 51) []
            example_window 1) = Recurse (createTimeWindow 0 30) 2"
proof -
  have busy: "BUSY_PERIOD_THRESHOLD example_constants < of_nat (length (example_ids 51))"
    by (simp add: example_constants_def example_ids_def)
  from contraction_keeps_center_and_floor [OF busy, of initial_hook "[]" example_window 1]
  obtain w' h' where p: "processAdaptiveSearch example_constants initial_hook (example_ids 51) []
            example_window 1 = (Recurse w' (1 + 1), h')"
    and d: "durationMinutes w' = max (durationMinutes example_window
             * CONTRACTION_FACTOR example_constants) (MIN_WINDOW_DURATION_MINUTES example_constants)"
    and c: "getWindowCenter w' = getWindowCenter example_window"
    by blast
  have "w' = createTimeWindow (getWindowCenter example_window)
      (max (durationMinutes example_window * CONTRACTION_FACTOR example_constants)
           (MIN_WINDOW_DURATION_MINUTES example_constants))"
    using p busy
    by (simp add: processAdaptiveSearch_def handleNextSearchStep_def Let_def)
  also have "\<dots> = createTimeWindow 0 30"
    by (simp add: example_window_def example_constants_def createInitialTimeWindow_def
        createTimeWindow_def getWindowCenter_def)
  finally show ?thesis using p busy by simp
qed

section \<open>The upstream client\<close>

text \<open>
  Claim C3. \<open>getVideoDetails\<close> issues one details request per batch of the uncached
  ids: their number is the ceiling of the number of uncached ids over
  \<open>MAX_IDS_PER_REQUEST\<close>, no batch is empty or longer than \<open>MAX_IDS_PER_REQUEST\<close>, and
  the batches concatenated are the uncached ids in order. The result lists, in the order
  of the input ids, the cache entry of every id that has one when the call returns and
  skips the others; when every batch resolves, the ids that have an entry are those
  cached before and those of the returned items.
\<close>

theorem getVideoDetails_batches_and_order:
  "requests (snd (getVideoDetails up st videoIds)) =
     requests st @ map VideosRequest (batches_from 0 (filter (\<lambda>i. videoCache st i = None) videoIds))
   \<and> videoDetailApiCalls (snd (getVideoDetails up st videoIds)) =
     videoDetailApiCalls st + length (batches_from 0 (filter (\<lambda>i. videoCache st i = None) videoIds))
   \<and> int (length (batches_from 0 (filter (\<lambda>i. videoCache st i = None) videoIds))) =
     \<lceil>rat_of_nat (length (filter (\<lambda>i. videoCache st i = None) videoIds))
        / rat_of_nat MAX_IDS_PER_REQUEST\<rceil>
   \<and> (\<forall>b \<in> set (batches_from 0 (filter (\<lambda>i. videoCache st i = None) videoIds)).
        b \<noteq> [] \<and> length b \<le> MAX_IDS_PER_REQUEST)
   \<and> concat (batches_from 0 (filter (\<lambda>i. videoCache st i = None) videoIds)) =
        filter (\<lambda>i. videoCache st i = None) videoIds
   \<and> fst (getVideoDetails up st videoIds) =
        filter_Boolean (map (videoCache (snd (getVideoDetails up st videoIds))) videoIds)
   \<and> (cache_keyed st \<longrightarrow>
        map video_id (fst (getVideoDetails up st videoIds)) =
          filter (\<lambda>i. videoCache (snd (getVideoDetails up st videoIds)) i \<noteq> None) videoIds)
   \<and> (filter (\<lambda>i. videoCache st i = None) videoIds \<noteq> []
        \<and> Promise_all (map (videos_get up)
             (batches_from 0 (filter (\<lambda>i. videoCache st i = None) videoIds))) = Some batchResults
        \<longrightarrow> dom (videoCache (snd (getVideoDetails up st videoIds))) =
              dom (videoCache st) \<union> video_id ` set (concat batchResults))"
proof (intro conjI)
  show "int (length (batches_from 0 (filter (\<lambda>i. videoCache st i = None) videoIds))) =
     \<lceil>rat_of_nat (length (filter (\<lambda>i. videoCache st i = None) videoIds))
        / rat_of_nat MAX_IDS_PER_REQUEST\<rceil>"
    by (simp only: MAX_IDS_PER_REQUEST_def ceiling_div50 length_batches_from diff_zero)
  show "\<forall>b \<in> set (batches_from 0 (filter (\<lambda>i. videoCache st i = None) videoIds)).
        b \<noteq> [] \<and> length b \<le> MAX_IDS_PER_REQUEST"
    using batches_from_bounded by blast
  show "cache_keyed st \<longrightarrow>
        map video_id (fst (getVideoDetails up st videoIds)) =
          filter (\<lambda>i. videoCache (snd (getVideoDetails up st videoIds)) i \<noteq> None) videoIds"
    by (rule impI) (rule getVideoDetails_ids_in_order)
  show "filter (\<lambda>i. videoCache st i = None) videoIds \<noteq> []
        \<and> Promise_all (map (videos_get up)
             (batches_from 0 (filter (\<lambda>i. videoCache st i = None) videoIds))) = Some batchResults
        \<longrightarrow> dom (videoCache (snd (getVideoDetails up st videoIds))) =
              dom (videoCache st) \<union> video_id ` set (concat batchResults)"
    by (intro impI, elim conjE) (rule getVideoDetails_resolved_dom)
qed (simp_all only: getVideoDetails_requests getVideoDetails_calls concat_batches_from drop_0
      getVideoDetails_result [symmetric])

theorem getVideoDetails_batches_and_order_witness:
  "cache_keyed initial_module
   \<and> map video_id (fst (getVideoDetails (example_upstream None 100 0) initial_module
         (example_ids 51))) = example_ids 51
   \<and> requests (snd (getVideoDetails (example_upstream None 100 0) initial_module
         (example_ids 51)))
       = [VideosRequest (take 50 (example_ids 51)), VideosRequest (drop 50 (example_ids 51))]"
proof -
  let ?g = "getVideoDetails (example_upstream None 100 0) initial_module (example_ids 51)"
  have keyed: "cache_keyed initial_module"
    by (simp add: cache_keyed_def initial_module_def)
  have all: "filter (\<lambda>i. videoCache (snd ?g) i \<noteq> None) (example_ids 51) = example_ids 51"
    by code_simp
  have uncached: "filter (\<lambda>i. videoCache initial_module i = None) (example_ids 51) = example_ids 51"
    by (simp add: initial_module_def)
  have batches: "batches_from 0 (example_ids 51) = [take 50 (example_ids 51), drop 50 (example_ids 51)]"
    by code_simp
  have log: "requests initial_module = []"
    by (simp add: initial_module_def)
  from getVideoDetails_batches_and_order
         [of "example_upstream None 100 0" initial_module "example_ids 51"] keyed
  have "map video_id (fst ?g) = filter (\<lambda>i. videoCache (snd ?g) i \<noteq> None) (example_ids 51)"
    and "requests (snd ?g) = requests initial_module @ map VideosRequest
           (batches_from 0 (filter (\<lambda>i. videoCache initial_module i = None) (example_ids 51)))"
    by blast+
  note ids = this(1) and reqs = this(2)
  from ids all have "map video_id (fst ?g) = example_ids 51"
    by (rule trans)
  moreover from reqs have "requests (snd ?g)
      = [VideosRequest (take 50 (example_ids 51)), VideosRequest (drop 50 (example_ids 51))]"
    by (simp only: uncached batches log append_Nil list.map)
  ultimately show ?thesis
    using keyed by (intro conjI)
qed

text \<open>
  Claim C4 fails as stated. With 51 uncached ids and an empty cache, the batch of the
  first 50 ids resolves with 50 videos and the batch of the last id is rejected: the call
  returns the empty list, so no detail of the batch that resolved is returned.
\<close>

theorem failed_batch_counterexample:
  "requests (snd (getVideoDetails (example_upstream None 100 1) initial_module (example_ids 51)))
     = [VideosRequest (take 50 (example_ids 51)), VideosRequest (drop 50 (example_ids 51))]
   \<and> videos_get (example_upstream None 100 1) (take 50 (example_ids 51))
     = Some (map (example_video 100) (take 50 (example_ids 51)))
   \<and> length (take 50 (example_ids 51)) = 50
   \<and> videos_get (example_upstream None 100 1) (drop 50 (example_ids 51)) = None
   \<and> fst (getVideoDetails (example_upstream None 100 1) initial_module (example_ids 51)) = []"
  by code_simp

text \<open>
  Claim C4, as amended. When a batch is rejected, \<open>getVideoDetails\<close> still returns
  normally, and what it returns is the list of the details that were in the cache before
  the call, for the requested ids in input order. The cache is left as it was: the
  details of the batches that resolved are neither returned nor stored. Every batch has
  been issued and counted.
\<close>

theorem failed_batch_returns_only_cached:
  assumes "b \<in> set (batches_from 0 (filter (\<lambda>i. videoCache st i = None) videoIds))"
    and "videos_get up b = None"
  shows "getVideoDetails up st videoIds =
     (filter_Boolean (map (videoCache st) videoIds),
      foldl issue_batch st (batches_from 0 (filter (\<lambda>i. videoCache st i = None) videoIds)))
   \<and> videoCache (snd (getVideoDetails up st videoIds)) = videoCache st
   \<and> set (fst (getVideoDetails up st videoIds)) \<subseteq> ran (videoCache st)"
  by (auto simp: some_batch_rejected [OF assms] foldl_issue_batch_counters filter_Boolean_set ran_def)

theorem failed_batch_returns_only_cached_witness:
  "drop 50 (example_ids 51)
     \<in> set (batches_from 0 (filter (\<lambda>i. videoCache initial_module i = None) (example_ids 51)))
   \<and> videos_get (example_upstream None 100 1) (drop 50 (example_ids 51)) = None
   \<and> fst (getVideoDetails (example_upstream None 100 1) initial_module (example_ids 51)) = []
   \<and> videoCache (snd (getVideoDetails (example_upstream None 100 1) initial_module
        (example_ids 51))) = Map.empty"
proof -
  have b: "drop 50 (example_ids 51)
     \<in> set (batches_from 0 (filter (\<lambda>i. videoCache initial_module i = None) (example_ids 51)))"
    by code_simp
  have f: "videos_get (example_upstream None 100 1) (drop 50 (example_ids 51)) = None"
    by code_simp
  have e: "filter_Boolean (map (videoCache initial_module) (example_ids 51)) = []"
    by code_simp
  have c: "videoCache initial_module = Map.empty"
    by (simp add: initial_module_def)
  from failed_batch_returns_only_cached [OF b f]
  have "getVideoDetails (example_upstream None 100 1) initial_module (example_ids 51) =
     (filter_Boolean (map (videoCache initial_module) (example_ids 51)),
      foldl issue_batch initial_module
        (batches_from 0 (filter (\<lambda>i. videoCache initial_module i = None) (example_ids 51))))"
    and "videoCache (snd (getVideoDetails (example_upstream None 100 1) initial_module
        (example_ids 51))) = videoCache initial_module"
    by blast+
  note r = this(1) and v = this(2)
  have "fst (getVideoDetails (example_upstream None 100 1) initial_module (example_ids 51)) = []"
    by (simp only: r fst_conv e)
  moreover from v c have "videoCache (snd (getVideoDetails (example_upstream None 100 1)
      initial_module (example_ids 51))) = Map.empty"
    by (rule trans)
  ultimately show ?thesis
    using b f by (intro conjI)
qed

text \<open>
  Claim C5. A failure of the upstream inside one call is turned into a fallback value.
  When the search request is rejected, \<open>searchVideosInTimeWindow\<close> returns the empty
  list and leaves both caches as they were, and the step goes on as for a window without
  candidates, with the aggressive expansion. When a details batch is rejected,
  \<open>getVideoDetails\<close> returns the details cached before the call for the requested ids
  and leaves both caches as they were. Both functions return plain values: the model has
  no error result for them, because each \<^verbatim>\<open>catch\<close> covers every request of its call.
\<close>

theorem upstream_failures_fall_back:
  "(searchCache st (getSearchCacheKey w) = None \<and> search_get up (startDate w) (endDate w) = None
      \<longrightarrow> fst (searchVideosInTimeWindow up st w) = []
        \<and> searchCache (snd (searchVideosInTimeWindow up st w)) = searchCache st
        \<and> videoCache (snd (searchVideosInTimeWindow up st w)) = videoCache st
        \<and> fst (searchWithExpansion_step up cfg (h, st) w n)
            = Recurse (expandTimeWindow cfg w None) (n + 1))
   \<and> ((\<exists>b \<in> set (batches_from 0 (filter (\<lambda>i. videoCache st i = None) videoIds)).
          videos_get up b = None)
      \<longrightarrow> fst (getVideoDetails up st videoIds) = filter_Boolean (map (videoCache st) videoIds)
        \<and> videoCache (snd (getVideoDetails up st videoIds)) = videoCache st
        \<and> searchCache (snd (getVideoDetails up st videoIds)) = searchCache st)"
proof (intro conjI impI)
  assume a: "searchCache st (getSearchCacheKey w) = None \<and> search_get up (startDate w) (endDate w) = None"
  then show "fst (searchVideosInTimeWindow up st w) = []"
    and "searchCache (snd (searchVideosInTimeWindow up st w)) = searchCache st"
    and "videoCache (snd (searchVideosInTimeWindow up st w)) = videoCache st"
    by (simp_all add: searchVideosInTimeWindow_miss_failed)
  from a show "fst (searchWithExpansion_step up cfg (h, st) w n)
            = Recurse (expandTimeWindow cfg w None) (n + 1)"
    by (simp add: step_search_failed)
next
  assume "\<exists>b \<in> set (batches_from 0 (filter (\<lambda>i. videoCache st i = None) videoIds)).
          videos_get up b = None"
  then obtain b where "b \<in> set (batches_from 0 (filter (\<lambda>i. videoCache st i = None) videoIds))"
    and "videos_get up b = None" by blast
  note r = some_batch_rejected [OF this]
  show "fst (getVideoDetails up st videoIds) = filter_Boolean (map (videoCache st) videoIds)"
    and "videoCache (snd (getVideoDetails up st videoIds)) = videoCache st"
    and "searchCache (snd (getVideoDetails up st videoIds)) = searchCache st"
    by (simp_all add: r foldl_issue_batch_counters)
qed

theorem upstream_failures_fall_back_witness:
  "searchCache initial_module (getSearchCacheKey example_window) = None
   \<and> search_get (example_upstream None 100 1) (startDate example_window) (endDate example_window)
       = None
   \<and> fst (searchVideosInTimeWindow (example_upstream None 100 1) initial_module example_window)
       = []
   \<and> fst (searchWithExpansion_step (example_upstream None 100 1) example_constants
            (initial_hook, initial_module) example_window 1)
       = Recurse (expandTimeWindow example_constants example_window None) 2
   \<and> (\<exists>b \<in> set (batches_from 0
             (filter (\<lambda>i. videoCache initial_module i = None) (example_ids 51))).
          videos_get (example_upstream None 100 1) b = None)
   \<and> fst (getVideoDetails (example_upstream None 100 1) initial_module (example_ids 51))
       = filter_Boolean (map (videoCache initial_module) (example_ids 51))"
proof -
  let ?up = "example_upstream None 100 1"
  have miss: "searchCache initial_module (getSearchCacheKey example_window) = None"
    by (simp add: initial_module_def)
  have down: "search_get ?up (startDate example_window) (endDate example_window) = None"
    by (simp add: example_upstream_def)
  have "drop 50 (example_ids 51)
     \<in> set (batches_from 0 (filter (\<lambda>i. videoCache initial_module i = None) (example_ids 51)))"
    by code_simp
  moreover have "videos_get ?up (drop 50 (example_ids 51)) = None"
    by code_simp
  ultimately have rejected: "\<exists>b \<in> set (batches_from 0
             (filter (\<lambda>i. videoCache initial_module i = None) (example_ids 51))).
          videos_get ?up b = None"
    by blast
  from upstream_failures_fall_back [of initial_module example_window ?up example_constants
         initial_hook 1 "example_ids 51"] miss down rejected
  have "fst (searchVideosInTimeWindow ?up initial_module example_window) = []"
    and "fst (searchWithExpansion_step ?up example_constants
            (initial_hook, initial_module) example_window 1)
       = Recurse (expandTimeWindow example_constants example_window None) (1 + 1)"
    and "fst (getVideoDetails ?up initial_module (example_ids 51))
       = filter_Boolean (map (videoCache initial_module) (example_ids 51))"
    by blast+
  with miss down rejected show ?thesis
    by (simp only: one_add_one)
qed

text \<open>
  Claim C6. When a window is not in the search cache and the upstream answers, the first
  \<open>searchVideosInTimeWindow\<close> returns the answer, stores it under the key of the window,
  adds one to the search-call and total-call counters and logs one request. A second call
  for the same window, whatever the upstream would answer then, returns the same list and
  changes nothing but the cached-searches counter, which goes up by one: no request is
  logged.
\<close>

theorem search_twice_one_upstream_call:
  assumes miss: "searchCache st (getSearchCacheKey w) = None"
    and ok: "search_get up (startDate w) (endDate w) = Some ids"
  shows "fst (searchVideosInTimeWindow up st w) = ids
   \<and> snd (searchVideosInTimeWindow up st w) =
       st\<lparr>searchApiCalls := searchApiCalls st + 1,
          totalApiCalls := totalApiCalls st + 1,
          requests := requests st @
            [SearchRequest MAX_RESULTS_PER_REQUEST (startDate w) (endDate w)],
          searchCache := (searchCache st)(getSearchCacheKey w \<mapsto> ids)\<rparr>
   \<and> fst (searchVideosInTimeWindow up' (snd (searchVideosInTimeWindow up st w)) w) = ids
   \<and> snd (searchVideosInTimeWindow up' (snd (searchVideosInTimeWindow up st w)) w) =
       (snd (searchVideosInTimeWindow up st w))
         \<lparr>cachedSearches := cachedSearches st + 1\<rparr>"
  by (simp add: searchVideosInTimeWindow_miss_ok [OF miss ok] searchVideosInTimeWindow_hit)

theorem search_twice_one_upstream_call_witness:
  "searchCache initial_module (getSearchCacheKey example_window) = None
   \<and> search_get (example_upstream (Some (example_ids 3)) 100 0)
        (startDate example_window) (endDate example_window) = Some (example_ids 3)
   \<and> fst (searchVideosInTimeWindow (example_upstream None 100 0)
        (snd (searchVideosInTimeWindow (example_upstream (Some (example_ids 3)) 100 0)
                initial_module example_window))
        example_window) = example_ids 3
   \<and> cachedSearches (snd (searchVideosInTimeWindow (example_upstream None 100 0)
        (snd (searchVideosInTimeWindow (example_upstream (Some (example_ids 3)) 100 0)
                initial_module example_window))
        example_window)) = 1
   \<and> requests (snd (searchVideosInTimeWindow (example_upstream None 100 0)
        (snd (searchVideosInTimeWindow (example_upstream (Some (example_ids 3)) 100 0)
                initial_module example_window))
        example_window)) = [SearchRequest 50 (- 30) 30]"
proof -
  let ?up = "example_upstream (Some (example_ids 3)) 100 0"
  let ?s1 = "snd (searchVideosInTimeWindow ?up initial_module example_window)"
  let ?r2 = "searchVideosInTimeWindow (example_upstream None 100 0) ?s1 example_window"
  have miss: "searchCache initial_module (getSearchCacheKey example_window) = None"
    by (simp add: initial_module_def)
  have ok: "search_get ?up (startDate example_window) (endDate example_window)
      = Some (example_ids 3)"
    by (simp add: example_upstream_def)
  from search_twice_one_upstream_call [OF miss ok, of "example_upstream None 100 0"]
  have first: "?s1 = initial_module\<lparr>searchApiCalls := searchApiCalls initial_module + 1,
          totalApiCalls := totalApiCalls initial_module + 1,
          requests := requests initial_module @
            [SearchRequest MAX_RESULTS_PER_REQUEST (startDate example_window)
               (endDate example_window)],
          searchCache := (searchCache initial_module)
            (getSearchCacheKey example_window \<mapsto> example_ids 3)\<rparr>"
    and again: "fst ?r2 = example_ids 3"
    and second: "snd ?r2 = ?s1\<lparr>cachedSearches := cachedSearches initial_module + 1\<rparr>"
    by blast+
  have "cachedSearches (snd ?r2) = 1"
    unfolding second by (simp add: initial_module_def)
  moreover have "requests (snd ?r2) = [SearchRequest 50 (- 30) 30]"
  proof -
    have "requests (snd ?r2) = requests ?s1"
      unfolding second by simp
    also have "\<dots> = [SearchRequest 50 (- 30) 30]"
      unfolding first
      by (simp add: initial_module_def MAX_RESULTS_PER_REQUEST_def example_window_def
          createInitialTimeWindow_def createTimeWindow_def example_constants_def)
    finally show ?thesis .
  qed
  ultimately show ?thesis
    using miss ok again by (intro conjI)
qed

section \<open>Counters and caches across sessions\<close>

text \<open>
  Claim C7. \<open>startSearch\<close> sets the five counters to zero and leaves the video cache,
  the search cache and the request log as they were. In the state it leaves, a window
  whose key was cached is answered from the cache, with one cache hit counted and no
  request, and ids that were all cached are answered from the cache, with one hit counted
  per id. A run of the search never removes a cached window or a cached id, so what a
  first session fetched is still cached when the second one starts.
\<close>

theorem startSearch_resets_stats_keeps_caches:
  assumes init: "startSearch_init cfg randomDate (h, st) = (w0, h1, st1)"
  shows "searchApiCalls st1 = 0 \<and> videoDetailApiCalls st1 = 0 \<and> totalApiCalls st1 = 0
     \<and> cachedSearches st1 = 0 \<and> cachedVideoDetails st1 = 0
     \<and> videoCache st1 = videoCache st \<and> searchCache st1 = searchCache st
     \<and> requests st1 = requests st
     \<and> (searchCache st (getSearchCacheKey w) = Some ids \<longrightarrow>
          searchVideosInTimeWindow up st1 w = (ids, st1\<lparr>cachedSearches := 1\<rparr>))
     \<and> (videoIds \<noteq> [] \<and> set videoIds \<subseteq> dom (videoCache st) \<longrightarrow>
          getVideoDetails up st1 videoIds =
            (map (\<lambda>i. the (videoCache st i)) videoIds,
             st1\<lparr>cachedVideoDetails := length videoIds\<rparr>))
     \<and> (\<forall>s'. searchWithExpansion fuel up' cfg (h', st') w' n = Some s' \<longrightarrow>
          searchCache st' \<subseteq>\<^sub>m searchCache (snd s')
          \<and> dom (videoCache st') \<subseteq> dom (videoCache (snd s')))"
proof -
  from init have st1: "st1 = reset st"
    by (simp add: startSearch_init_def Let_def)
  have frame: "videoCache st1 = videoCache st" "searchCache st1 = searchCache st"
    "cachedSearches st1 = 0" "cachedVideoDetails st1 = 0"
    by (simp_all add: st1 reset_def)
  have hit: "searchVideosInTimeWindow up st1 w = (ids, st1\<lparr>cachedSearches := 1\<rparr>)"
    if "searchCache st (getSearchCacheKey w) = Some ids"
    using that by (simp add: searchVideosInTimeWindow_hit frame)
  have hits: "getVideoDetails up st1 videoIds =
            (map (\<lambda>i. the (videoCache st i)) videoIds,
             st1\<lparr>cachedVideoDetails := length videoIds\<rparr>)"
    if "videoIds \<noteq> []" "set videoIds \<subseteq> dom (videoCache st)"
  proof -
    from that(2) have "filter (\<lambda>i. videoCache st1 i = None) videoIds = []"
      by (auto simp: frame filter_empty_conv)
    with that(1) show ?thesis
      by (simp add: getVideoDetails_all_cached frame)
  qed
  have grow: "\<forall>s'. searchWithExpansion fuel up' cfg (h', st') w' n = Some s' \<longrightarrow>
          searchCache st' \<subseteq>\<^sub>m searchCache (snd s')
          \<and> dom (videoCache st') \<subseteq> dom (videoCache (snd s'))"
  proof (intro allI impI)
    fix s'
    assume "searchWithExpansion fuel up' cfg (h', st') w' n = Some s'"
    from searchWithExpansion_caches_grow [OF this]
    show "searchCache st' \<subseteq>\<^sub>m searchCache (snd s')
          \<and> dom (videoCache st') \<subseteq> dom (videoCache (snd s'))"
      by (simp only: snd_conv)
  qed
  have zero: "searchApiCalls st1 = 0 \<and> videoDetailApiCalls st1 = 0 \<and> totalApiCalls st1 = 0
     \<and> cachedSearches st1 = 0 \<and> cachedVideoDetails st1 = 0
     \<and> videoCache st1 = videoCache st \<and> searchCache st1 = searchCache st
     \<and> requests st1 = requests st"
    by (simp add: st1 reset_def)
  from zero hit hits grow show ?thesis
    by (intro conjI impI) (elim conjE, assumption)+
qed

theorem startSearch_resets_stats_keeps_caches_witness:
  "searchWithExpansion (Suc 0) (example_upstream (Some (example_ids 3)) 3 0) example_constants
      (initial_hook, initial_module) example_window 1 = Some example_first_session
   \<and> totalApiCalls (snd example_first_session) = 2
   \<and> searchCache (snd example_first_session) (getSearchCacheKey example_window)
       = Some (example_ids 3)
   \<and> set (example_ids 3) \<subseteq> dom (videoCache (snd example_first_session))
   \<and> totalApiCalls (snd (snd (startSearch_init example_constants 0 example_first_session))) = 0
   \<and> fst (searchVideosInTimeWindow (example_upstream None 100 1)
          (snd (snd (startSearch_init example_constants 0 example_first_session)))
          example_window) = example_ids 3
   \<and> cachedSearches (snd (searchVideosInTimeWindow (example_upstream None 100 1)
          (snd (snd (startSearch_init example_constants 0 example_first_session)))
          example_window)) = 1
   \<and> cachedVideoDetails (snd (getVideoDetails (example_upstream None 100 1)
          (snd (snd (startSearch_init example_constants 0 example_first_session)))
          (example_ids 3))) = 3
   \<and> requests (snd (getVideoDetails (example_upstream None 100 1)
          (snd (snd (startSearch_init example_constants 0 example_first_session)))
          (example_ids 3))) = requests (snd example_first_session)"
proof -
  let ?up = "example_upstream (Some (example_ids 3)) 3 0"
  let ?down = "example_upstream None 100 1"
  let ?step = "searchWithExpansion_step ?up example_constants (initial_hook, initial_module)
                 example_window 1"
  let ?h = "fst example_first_session"
  let ?st = "snd example_first_session"
  let ?init = "startSearch_init example_constants 0 (?h, ?st)"
  let ?st1 = "snd (snd ?init)"
  have "fst ?step = Return" by code_simp
  then have "?step = (Return, example_first_session)"
    by (simp add: example_first_session_def prod_eq_iff)
  then have run: "searchWithExpansion (Suc 0) ?up example_constants (initial_hook, initial_module)
      example_window 1 = Some example_first_session"
    by (simp only: searchWithExpansion.simps prod.case next_call.case)
  have calls: "totalApiCalls ?st = 2"
    unfolding example_first_session_def by code_simp
  have cached: "searchCache ?st (getSearchCacheKey example_window) = Some (example_ids 3)"
    unfolding example_first_session_def by code_simp
  have ne: "example_ids 3 \<noteq> []" by code_simp
  have "list_all (\<lambda>i. videoCache ?st i \<noteq> None) (example_ids 3)"
    unfolding example_first_session_def by code_simp
  then have known: "set (example_ids 3) \<subseteq> dom (videoCache ?st)"
    by (auto simp: list_all_iff)
  have init: "?init = (fst ?init, fst (snd ?init), ?st1)" by simp
  from startSearch_resets_stats_keeps_caches [OF init, of example_window "example_ids 3" ?down
         "example_ids 3"] cached ne known
  have zero: "totalApiCalls ?st1 = 0"
    and hit: "searchVideosInTimeWindow ?down ?st1 example_window
        = (example_ids 3, ?st1\<lparr>cachedSearches := 1\<rparr>)"
    and hits: "getVideoDetails ?down ?st1 (example_ids 3)
        = (map (\<lambda>i. the (videoCache ?st i)) (example_ids 3),
           ?st1\<lparr>cachedVideoDetails := length (example_ids 3)\<rparr>)"
    and log: "requests ?st1 = requests ?st"
    by blast+
  have three: "length (example_ids 3) = 3" by code_simp
  have "fst (searchVideosInTimeWindow ?down ?st1 example_window) = example_ids 3"
    and "cachedSearches (snd (searchVideosInTimeWindow ?down ?st1 example_window)) = 1"
    unfolding hit by simp_all
  moreover have "cachedVideoDetails (snd (getVideoDetails ?down ?st1 (example_ids 3))) = 3"
    and "requests (snd (getVideoDetails ?down ?st1 (example_ids 3))) = requests ?st"
    using log unfolding hits by (simp_all add: three)
  ultimately show ?thesis
    using run calls cached known zero by simp
qed

text \<open>
  Claim C10. \<open>totalApiCalls = searchApiCalls + videoDetailApiCalls\<close> holds after
  \<open>reset\<close>, is kept by \<open>searchVideosInTimeWindow\<close>, by \<open>getVideoDetails\<close> and by a
  step of the search, whether they hit the cache or call the upstream, and holds in the
  state in which a session started by \<open>startSearch\<close> ends.
\<close>

theorem totalApiCalls_is_sum:
  "stats_consistent (reset st)
   \<and> (stats_consistent st \<longrightarrow> stats_consistent (snd (searchVideosInTimeWindow up st w)))
   \<and> (stats_consistent st \<longrightarrow> stats_consistent (snd (getVideoDetails up st videoIds)))
   \<and> (stats_consistent (snd s) \<longrightarrow>
        stats_consistent (snd (snd (searchWithExpansion_step up cfg s w n))))
   \<and> (\<forall>s'. startSearch fuel up cfg randomDate s = Some s' \<longrightarrow> stats_consistent (snd s'))"
proof (intro conjI allI impI)
  show "stats_consistent (reset st)"
    by (simp add: stats_consistent_def reset_def)
next
  fix s'
  assume run: "startSearch fuel up cfg randomDate s = Some s'"
  have "stats_consistent (reset (snd s))"
    by (simp add: stats_consistent_def reset_def)
  with run show "stats_consistent (snd s')"
    by (auto simp: startSearch_def startSearch_init_def Let_def
        dest!: searchWithExpansion_consistent)
qed (simp_all add: searchVideosInTimeWindow_consistent getVideoDetails_consistent step_consistent)

theorem totalApiCalls_is_sum_witness:
  "stats_consistent initial_module
   \<and> stats_consistent (snd (searchVideosInTimeWindow (example_upstream (Some (example_ids 3)) 100 0)
        initial_module example_window))
   \<and> stats_consistent (snd (getVideoDetails (example_upstream (Some (example_ids 3)) 100 0)
        initial_module (example_ids 51)))
   \<and> totalApiCalls (snd (getVideoDetails (example_upstream (Some (example_ids 3)) 100 0)
        initial_module (example_ids 51))) = 2"
proof -
  let ?up = "example_upstream (Some (example_ids 3)) 100 0"
  have c: "stats_consistent initial_module"
    by (simp add: stats_consistent_def initial_module_def)
  have two: "totalApiCalls (snd (getVideoDetails ?up initial_module (example_ids 51))) = 2"
    by code_simp
  from totalApiCalls_is_sum [of initial_module ?up example_window "example_ids 51"] c
  have "stats_consistent (snd (searchVideosInTimeWindow ?up initial_module example_window))"
    and "stats_consistent (snd (getVideoDetails ?up initial_module (example_ids 51)))"
    by blast+
  with c two show ?thesis
    by (intro conjI)
qed

end
